theory Spec2Isabelle
  imports Complex_Main
begin

section \<open>Python values and exceptions\<close>

text \<open>
  The helpers of \<^verbatim>\<open>qa_filterbank.py\<close> and \<^verbatim>\<open>qa_fft.py\<close> work on plain Python lists of
  numbers. An exception raised by the source is a value \<open>Inl e\<close> of the result type; a normal
  return is \<open>Inr v\<close>.
\<close>

datatype py_error = IndexError | ZeroDivisionError | TypeError | AssertionError

text \<open>\<^verbatim>\<open>xs[i]\<close>: a negative index counts from the end, an index out of range raises.\<close>

definition py_index :: "'a list \<Rightarrow> int \<Rightarrow> py_error + 'a" where
  "py_index xs i =
     (let n = int (length xs); k = (if i < 0 then n + i else i)
      in if 0 \<le> k \<and> k < n then Inr (xs ! nat k) else Inl IndexError)"

text \<open>\<^verbatim>\<open>range(a, b)\<close>: the integers from \<open>a\<close> up to \<open>b - 1\<close>, none when \<open>b \<le> a\<close>.\<close>

definition py_range :: "int \<Rightarrow> int \<Rightarrow> int list" where
  "py_range a b = [a..b - 1]"

text \<open>\<^verbatim>\<open>[x]*n\<close>: \<open>n\<close> copies, none when \<open>n\<close> is negative.\<close>

definition py_repeat :: "'a list \<Rightarrow> int \<Rightarrow> 'a list" where
  "py_repeat xs n = concat (replicate (nat n) xs)"

text \<open>\<^verbatim>\<open>xs[a:b]\<close> for indices that are not negative: both ends are clamped to the list.\<close>

definition py_slice :: "'a list \<Rightarrow> nat \<Rightarrow> nat \<Rightarrow> 'a list" where
  "py_slice xs a b = drop a (take b xs)"

section \<open>The reference convolution of \<^verbatim>\<open>qa_filterbank.py\<close>\<close>

text \<open>
  \<^verbatim>\<open>
  def convolve(data, taps):
      out = []
      data = [0]*(len(taps)-1) + data
      for i in range(len(taps)-1, len(data)):
          v = 0
          for j in range(len(taps)):
              v += data[i-j]*taps[j]
          out.append(v)
      return out
  \<close>
  The inner loop runs over the remaining values of \<open>j\<close> with the accumulator \<open>v\<close>, the
  outer loop over the remaining values of \<open>i\<close> with the list \<open>out\<close> built so far.
\<close>

fun convolve_inner :: "'a::semiring_0 list \<Rightarrow> 'a list \<Rightarrow> int \<Rightarrow> int list \<Rightarrow> 'a \<Rightarrow> py_error + 'a" where
  "convolve_inner data taps i [] v = Inr v"
| "convolve_inner data taps i (j # js) v =
     (case py_index data (i - j) of
        Inl e \<Rightarrow> Inl e
      | Inr d \<Rightarrow>
          (case py_index taps j of
             Inl e \<Rightarrow> Inl e
           | Inr t \<Rightarrow> convolve_inner data taps i js (v + d * t)))"

fun convolve_outer :: "'a::semiring_0 list \<Rightarrow> 'a list \<Rightarrow> int list \<Rightarrow> 'a list \<Rightarrow> py_error + 'a list" where
  "convolve_outer data taps [] out = Inr out"
| "convolve_outer data taps (i # is) out =
     (case convolve_inner data taps i (py_range 0 (int (length taps))) 0 of
        Inl e \<Rightarrow> Inl e
      | Inr v \<Rightarrow> convolve_outer data taps is (out @ [v]))"

definition convolve :: "'a::semiring_0 list \<Rightarrow> 'a list \<Rightarrow> py_error + 'a list" where
  "convolve data taps =
     (let data' = py_repeat [0] (int (length taps) - 1) @ data
      in convolve_outer data' taps (py_range (int (length taps) - 1) (int (length data'))) [])"

text \<open>
  The zero-padded input of the specification, in its words: \<open>data\<close> with
  \<open>len(taps) - 1\<close> zeros in front.
\<close>

definition padded :: "'a::semiring_0 list \<Rightarrow> 'a list \<Rightarrow> 'a list" where
  "padded data taps = replicate (length taps - 1) 0 @ data"

section \<open>Tap scaling of \<^verbatim>\<open>qa_filterbank.py\<close>\<close>

text \<open>
  \<^verbatim>\<open>
  def scale_taps(tapss):
      scaledtaps = []
      maxabsintegral = 0
      for taps in tapss:
          absintegral = sum([abs(x) for x in taps])
          if absintegral > maxabsintegral:
              maxabsintegral = absintegral
      scaledtaps = [[t/maxabsintegral for t in taps] for taps in tapss]
      return scaledtaps, maxabsintegral
  \<close>
  The taps are the real coefficients the test generates (\<^verbatim>\<open>myrand()*2-1\<close>), taken here as
  exact rationals, so that \<^verbatim>\<open>/\<close> is true division. A division by zero raises; the list
  comprehensions stop at the first one.
\<close>

definition absintegral :: "rat list \<Rightarrow> rat" where
  "absintegral taps = sum_list (map abs taps)"

fun scale_taps_max :: "rat list list \<Rightarrow> rat \<Rightarrow> rat" where
  "scale_taps_max [] maxabsintegral = maxabsintegral"
| "scale_taps_max (taps # tapss) maxabsintegral =
     (if absintegral taps > maxabsintegral
      then scale_taps_max tapss (absintegral taps)
      else scale_taps_max tapss maxabsintegral)"

definition py_div :: "rat \<Rightarrow> rat \<Rightarrow> py_error + rat" where
  "py_div a b = (if b = 0 then Inl ZeroDivisionError else Inr (a / b))"

fun scale_list :: "rat list \<Rightarrow> rat \<Rightarrow> py_error + rat list" where
  "scale_list [] m = Inr []"
| "scale_list (t # ts) m =
     (case py_div t m of
        Inl e \<Rightarrow> Inl e
      | Inr q \<Rightarrow> (case scale_list ts m of Inl e \<Rightarrow> Inl e | Inr qs \<Rightarrow> Inr (q # qs)))"

fun scale_lists :: "rat list list \<Rightarrow> rat \<Rightarrow> py_error + rat list list" where
  "scale_lists [] m = Inr []"
| "scale_lists (taps # tapss) m =
     (case scale_list taps m of
        Inl e \<Rightarrow> Inl e
      | Inr qs \<Rightarrow> (case scale_lists tapss m of Inl e \<Rightarrow> Inl e | Inr qss \<Rightarrow> Inr (qs # qss)))"

definition scale_taps :: "rat list list \<Rightarrow> py_error + (rat list list \<times> rat)" where
  "scale_taps tapss =
     (let maxabsintegral = scale_taps_max tapss 0
      in case scale_lists tapss maxabsintegral of
           Inl e \<Rightarrow> Inl e
         | Inr scaledtaps \<Rightarrow> Inr (scaledtaps, maxabsintegral))"

section \<open>Zero pruning of \<^verbatim>\<open>qa_fft.py\<close>\<close>

text \<open>
  \<^verbatim>\<open>
  def prune_zeros(xs):
      start_index = None
      stop_index = None
      for i, x in enumerate(xs):
          if x != 0:
              if start_index is None:
                  start_index = i
              stop_index = i
      if start_index is None:
          return []
      else:
          return xs[start_index:stop_index+1]
  \<close>
  The loop state is the pair \<open>(start_index, stop_index)\<close>, \<open>None\<close> as in the source.
  \<^verbatim>\<open>stop_index+1\<close> on \<open>None\<close> would raise a \<^verbatim>\<open>TypeError\<close>.
\<close>

fun prune_zeros_loop :: "(nat \<times> 'a::zero) list \<Rightarrow> nat option \<times> nat option \<Rightarrow> nat option \<times> nat option" where
  "prune_zeros_loop [] st = st"
| "prune_zeros_loop ((i, x) # rest) (start_index, stop_index) =
     (if x \<noteq> 0
      then prune_zeros_loop rest ((if start_index = None then Some i else start_index), Some i)
      else prune_zeros_loop rest (start_index, stop_index))"

definition prune_zeros :: "'a::zero list \<Rightarrow> py_error + 'a list" where
  "prune_zeros xs =
     (case prune_zeros_loop (enumerate 0 xs) (None, None) of
        (None, stop_index) \<Rightarrow> Inr []
      | (Some start_index, None) \<Rightarrow> Inl TypeError
      | (Some start_index, Some stop_index) \<Rightarrow> Inr (py_slice xs start_index (stop_index + 1)))"

section \<open>The assertions of the test cases\<close>

text \<open>
  The test cases end in \<^verbatim>\<open>unittest\<close> assertions over the sequences captured from the
  simulator. The captured sequences come from outside this code and are parameters here.
  An assertion that holds returns, one that fails raises \<^verbatim>\<open>AssertionError\<close>.

  \<^verbatim>\<open>assertAlmostEqual(first, second, places)\<close> passes when the two values are equal, and
  otherwise when \<^verbatim>\<open>round(abs(second-first), places) == 0\<close>. Samples are complex numbers
  with exact real components here, \<^verbatim>\<open>abs\<close> is the modulus, and rounding to \<open>places\<close>
  decimals gives zero exactly when the value scaled by \<open>10 ^ places\<close> rounds to the
  integer zero.
\<close>

definition assertEqual :: "'a \<Rightarrow> 'a \<Rightarrow> py_error + unit" where
  "assertEqual first second = (if first = second then Inr () else Inl AssertionError)"

definition assertAlmostEqual :: "complex \<Rightarrow> complex \<Rightarrow> nat \<Rightarrow> py_error + unit" where
  "assertAlmostEqual first second places =
     (if first = second then Inr ()
      else if round (norm (second - first) * 10 ^ places) = 0 then Inr ()
      else Inl AssertionError)"

subsection \<open>\<^verbatim>\<open>TestDIT.test_one\<close> and \<^verbatim>\<open>TestStage.test_one\<close> of \<^verbatim>\<open>qa_fft.py\<close>\<close>

text \<open>
  Both tests hold the same lines:
  \<^verbatim>\<open>
        expected = in_samples
        ...
        for tb, steps in (...):
            tb.run(steps)
            # Confirm that our data is correct.
            self.assertEqual(len(tb.out_samples), len(expected))
            for r, e in zip(tb.out_samples, expected):
                self.assertAlmostEqual(e, r, 3)
  \<close>
  \<open>test_one\<close> takes the input samples and the \<^verbatim>\<open>out_samples\<close> of each test bench of the
  tuple, in order (two benches in \<^verbatim>\<open>TestDIT\<close>, three in \<^verbatim>\<open>TestStage\<close>).
\<close>

fun fft_compare_loop :: "(complex \<times> complex) list \<Rightarrow> py_error + unit" where
  "fft_compare_loop [] = Inr ()"
| "fft_compare_loop ((r, e) # rest) =
     (case assertAlmostEqual e r 3 of
        Inl err \<Rightarrow> Inl err
      | Inr u \<Rightarrow> fft_compare_loop rest)"

definition fft_compare :: "complex list \<Rightarrow> complex list \<Rightarrow> py_error + unit" where
  "fft_compare out_samples expected =
     (case assertEqual (length out_samples) (length expected) of
        Inl err \<Rightarrow> Inl err
      | Inr u \<Rightarrow> fft_compare_loop (zip out_samples expected))"

fun test_one_benches :: "complex list \<Rightarrow> complex list list \<Rightarrow> py_error + unit" where
  "test_one_benches expected [] = Inr ()"
| "test_one_benches expected (out_samples # tbs) =
     (case fft_compare out_samples expected of
        Inl err \<Rightarrow> Inl err
      | Inr u \<Rightarrow> test_one_benches expected tbs)"

definition test_one_expected :: "complex list \<Rightarrow> complex list" where
  "test_one_expected in_samples = in_samples"

definition test_one :: "complex list \<Rightarrow> complex list list \<Rightarrow> py_error + unit" where
  "test_one in_samples tbs = test_one_benches (test_one_expected in_samples) tbs"

text \<open>
  The reference the specification names for these tests, written from its words (an FFT of
  the input samples): the discrete Fourier transform of the sample sequence, which is what
  an FFT computes. Only the comparison with \<open>test_one_expected\<close> uses it.
\<close>

definition dft :: "complex list \<Rightarrow> complex list" where
  "dft xs =
     map (\<lambda>k. \<Sum>n<length xs. xs ! n * cis (- (2 * pi * real k * real n / real (length xs))))
       [0..<length xs]"

subsection \<open>\<^verbatim>\<open>TestFilterbank\<close> of \<^verbatim>\<open>qa_filterbank.py\<close>\<close>

text \<open>
  The three tests of the class end in the same three blocks. The samples:
  \<^verbatim>\<open>
        for rs, es in zip(received, expected):
            for r, e in zip(rs, es):
                self.assertAlmostEqual(r, e, 3)
  \<close>
\<close>

fun compare_stream :: "(complex \<times> complex) list \<Rightarrow> py_error + unit" where
  "compare_stream [] = Inr ()"
| "compare_stream ((r, e) # rest) =
     (case assertAlmostEqual r e 3 of
        Inl err \<Rightarrow> Inl err
      | Inr u \<Rightarrow> compare_stream rest)"

fun compare_streams :: "(complex list \<times> complex list) list \<Rightarrow> py_error + unit" where
  "compare_streams [] = Inr ()"
| "compare_streams ((rs, es) # rest) =
     (case compare_stream (zip rs es) of
        Inl err \<Rightarrow> Inl err
      | Inr u \<Rightarrow> compare_streams rest)"

definition compare_samples :: "complex list list \<Rightarrow> complex list list \<Rightarrow> py_error + unit" where
  "compare_samples received expected = compare_streams (zip received expected)"

text \<open>
  The meta data:
  \<^verbatim>\<open>
        # Compare ms
        self.assertEqual(len(tb.out_ms), len(ms))
        for r, e in zip(tb.out_ms, ms):
            self.assertEqual(r, e)
  \<close>
\<close>

fun compare_ms_loop :: "(int \<times> int) list \<Rightarrow> py_error + unit" where
  "compare_ms_loop [] = Inr ()"
| "compare_ms_loop ((r, e) # rest) =
     (case assertEqual r e of
        Inl err \<Rightarrow> Inl err
      | Inr u \<Rightarrow> compare_ms_loop rest)"

definition compare_ms :: "int list \<Rightarrow> int list \<Rightarrow> py_error + unit" where
  "compare_ms out_ms ms =
     (case assertEqual (length out_ms) (length ms) of
        Inl err \<Rightarrow> Inl err
      | Inr u \<Rightarrow> compare_ms_loop (zip out_ms ms))"

text \<open>
  The first-filter signal, with the expected pattern of \<^verbatim>\<open>test_simple\<close> and
  \<^verbatim>\<open>atest_randominput\<close>:
  \<^verbatim>\<open>
        # Expected first filter signals
        ffs = ([1] + [0]*(n_filters-1))*n_data
        ...
        # Compare first_filter signals
        self.assertEqual(len(tb.out_ff), len(ffs))
        for r, e in zip(tb.out_ff, ffs):
            self.assertEqual(r, e)
  \<close>
\<close>

definition expected_ffs :: "int \<Rightarrow> int \<Rightarrow> int list" where
  "expected_ffs n_filters n_data = py_repeat ([1] @ py_repeat [0] (n_filters - 1)) n_data"

fun compare_ff_loop :: "(int \<times> int) list \<Rightarrow> py_error + unit" where
  "compare_ff_loop [] = Inr ()"
| "compare_ff_loop ((r, e) # rest) =
     (case assertEqual r e of
        Inl err \<Rightarrow> Inl err
      | Inr u \<Rightarrow> compare_ff_loop rest)"

definition compare_ff :: "int list \<Rightarrow> int list \<Rightarrow> py_error + unit" where
  "compare_ff out_ff ffs =
     (case assertEqual (length out_ff) (length ffs) of
        Inl err \<Rightarrow> Inl err
      | Inr u \<Rightarrow> compare_ff_loop (zip out_ff ffs))"

section \<open>Properties of the reference convolution\<close>

lemma py_index_in_range:
  "0 \<le> i \<Longrightarrow> i < int (length xs) \<Longrightarrow> py_index xs i = Inr (xs ! nat i)"
  by (simp add: py_index_def Let_def)

lemma py_range_nat: "py_range (int a) (int b) = map int [a..<b]"
proof (rule nth_equalityI)
  show "length (py_range (int a) (int b)) = length (map int [a..<b])"
    by (simp add: py_range_def)
next
  fix k assume "k < length (py_range (int a) (int b))"
  then have "k < b - a" by (simp add: py_range_def)
  then show "py_range (int a) (int b) ! k = map int [a..<b] ! k"
    by (simp add: py_range_def)
qed

lemma convolve_inner_sum:
  assumes "\<forall>j\<in>set js. 0 \<le> j \<and> j < int (length taps) \<and> 0 \<le> i - j \<and> i - j < int (length data)"
  shows "convolve_inner data taps i js v =
           Inr (v + sum_list (map (\<lambda>j. data ! nat (i - j) * taps ! nat j) js))"
  using assms
proof (induction js arbitrary: v)
  case Nil
  then show ?case by simp
next
  case (Cons j js)
  then show ?case by (simp add: py_index_in_range add.assoc)
qed

lemma convolve_inner_range:
  assumes "int (length taps) - 1 \<le> i" and "i < int (length data)"
  shows "convolve_inner data taps i (py_range 0 (int (length taps))) 0 =
           Inr (\<Sum>j<length taps. data ! nat (i - int j) * taps ! j)"
proof -
  have r: "py_range 0 (int (length taps)) = map int [0..<length taps]"
    using py_range_nat [of 0 "length taps"] by simp
  have "\<forall>j\<in>set (map int [0..<length taps]).
          0 \<le> j \<and> j < int (length taps) \<and> 0 \<le> i - j \<and> i - j < int (length data)"
    using assms by auto
  then have "convolve_inner data taps i (map int [0..<length taps]) 0 =
           Inr (0 + sum_list (map (\<lambda>j. data ! nat (i - j) * taps ! nat j) (map int [0..<length taps])))"
    by (rule convolve_inner_sum)
  also have "sum_list (map (\<lambda>j. data ! nat (i - j) * taps ! nat j) (map int [0..<length taps]))
              = (\<Sum>j<length taps. data ! nat (i - int j) * taps ! j)"
    by (simp add: comp_def interv_sum_list_conv_sum_set_nat atLeast0LessThan)
  finally show ?thesis by (simp add: r)
qed

lemma convolve_outer_map:
  assumes "\<forall>i\<in>set is. int (length taps) - 1 \<le> i \<and> i < int (length data)"
  shows "convolve_outer data taps is out =
           Inr (out @ map (\<lambda>i. \<Sum>j<length taps. data ! nat (i - int j) * taps ! j) is)"
  using assms
proof (induction "is" arbitrary: out)
  case Nil
  then show ?case by simp
next
  case (Cons i "is")
  then show ?case by (simp add: convolve_inner_range)
qed

lemma py_repeat_zero: "py_repeat [0] (int n - 1) = replicate (n - 1) 0"
  by (induction n) (simp_all add: py_repeat_def nat_diff_distrib')

text \<open>
  Claim C1. For taps that are not empty, \<open>convolve\<close> returns normally a list as long as
  \<open>data\<close>, whose element \<open>i\<close> is the sum over \<open>j\<close> of
  \<open>padded[len(taps)-1+i-j] * taps[j]\<close>, where \<open>padded\<close> is \<open>data\<close> with
  \<open>len(taps)-1\<close> zeros in front.
\<close>

theorem convolve_spec:
  assumes "taps \<noteq> []"
  shows "\<exists>out. convolve data taps = Inr out \<and> length out = length data
           \<and> (\<forall>i<length data. out ! i =
                 (\<Sum>j<length taps. padded data taps ! (length taps - 1 + i - j) * taps ! j))"
proof -
  let ?n = "length taps"
  let ?d = "padded data taps"
  let ?f = "\<lambda>i. \<Sum>j<?n. ?d ! nat (i - int j) * taps ! j"
  have n: "1 \<le> ?n" using assms by (cases taps) simp_all
  have d: "py_repeat [0] (int ?n - 1) @ data = ?d"
    by (simp add: py_repeat_zero padded_def)
  have len: "length ?d = ?n - 1 + length data" by (simp add: padded_def)
  have r: "py_range (int ?n - 1) (int (length ?d)) = map int [?n - 1..<?n - 1 + length data]"
    using py_range_nat [of "?n - 1" "?n - 1 + length data"] n by (simp add: len of_nat_diff)
  have "\<forall>i\<in>set (map int [?n - 1..<?n - 1 + length data]). int ?n - 1 \<le> i \<and> i < int (length ?d)"
    using n by (auto simp: len)
  then have "convolve_outer ?d taps (map int [?n - 1..<?n - 1 + length data]) [] =
           Inr ([] @ map ?f (map int [?n - 1..<?n - 1 + length data]))"
    by (rule convolve_outer_map)
  then have res: "convolve data taps = Inr (map ?f (map int [?n - 1..<?n - 1 + length data]))"
    by (simp add: convolve_def Let_def d r)
  have nth: "\<forall>i<length data. map ?f (map int [?n - 1..<?n - 1 + length data]) ! i =
               (\<Sum>j<?n. ?d ! (?n - 1 + i - j) * taps ! j)"
  proof (intro allI impI)
    fix i assume i: "i < length data"
    have "map ?f (map int [?n - 1..<?n - 1 + length data]) ! i = ?f (int (?n - 1 + i))"
      using i by simp
    also have "\<dots> = (\<Sum>j<?n. ?d ! (?n - 1 + i - j) * taps ! j)"
    proof (rule sum.cong)
      fix j assume "j \<in> {..<?n}"
      then have "j \<le> ?n - 1 + i" by auto
      then have "nat (int (?n - 1 + i) - int j) = ?n - 1 + i - j" by simp
      then show "?d ! nat (int (?n - 1 + i) - int j) * taps ! j = ?d ! (?n - 1 + i - j) * taps ! j"
        by simp
    qed simp
    finally show "map ?f (map int [?n - 1..<?n - 1 + length data]) ! i =
               (\<Sum>j<?n. ?d ! (?n - 1 + i - j) * taps ! j)" .
  qed
  show ?thesis using res nth by simp
qed

theorem convolve_spec_witness:
  "[10, 1, 0::int] \<noteq> []
   \<and> (\<exists>out. convolve [1, 2, 3, 4] [10, 1, 0::int] = Inr out \<and> length out = 4
          \<and> out ! 0 = 10 \<and> out ! 1 = 21 \<and> out ! 2 = 32 \<and> out ! 3 = 43)"
proof -
  have h: "[10, 1, 0::int] \<noteq> []" by simp
  from convolve_spec [OF h, of "[1, 2, 3, 4]"] obtain out
    where o: "convolve [1, 2, 3, 4] [10, 1, 0::int] = Inr out"
      and l: "length out = length [1, 2, 3, 4::int]"
      and n: "\<forall>i<length [1, 2, 3, 4::int]. out ! i =
                 (\<Sum>j<length [10, 1, 0::int].
                    padded [1, 2, 3, 4] [10, 1, 0::int] ! (length [10, 1, 0::int] - 1 + i - j)
                      * [10, 1, 0::int] ! j)"
    by blast
  have "out ! 0 = 10" using n [rule_format, of 0] by (simp add: padded_def)
  moreover have "out ! 1 = 21" using n [rule_format, of 1] by (simp add: padded_def)
  moreover have "out ! 2 = 32" using n [rule_format, of 2] by (simp add: padded_def)
  moreover have "out ! 3 = 43" using n [rule_format, of 3] by (simp add: padded_def)
  ultimately show ?thesis using h o l by simp
qed

section \<open>Properties of tap scaling\<close>

lemma scale_taps_max_ge: "m \<le> scale_taps_max tapss m"
  by (induction tapss arbitrary: m) (auto intro: order_trans less_imp_le)

lemma scale_taps_max_upper:
  "taps \<in> set tapss \<Longrightarrow> absintegral taps \<le> scale_taps_max tapss m"
proof (induction tapss arbitrary: m)
  case Nil
  then show ?case by simp
next
  case (Cons a tapss)
  show ?case
  proof (cases "taps = a")
    case True
    have "absintegral a \<le> scale_taps_max tapss (absintegral a)"
      by (rule scale_taps_max_ge)
    moreover have "\<not> m < absintegral a \<Longrightarrow> absintegral a \<le> scale_taps_max tapss m"
      using scale_taps_max_ge [of m tapss] by simp
    ultimately show ?thesis using True by simp
  next
    case False
    with Cons.prems have "taps \<in> set tapss" by simp
    then show ?thesis using Cons.IH by simp
  qed
qed

lemma scale_taps_max_mem:
  "scale_taps_max tapss m = m \<or> scale_taps_max tapss m \<in> absintegral ` set tapss"
proof (induction tapss arbitrary: m)
  case Nil
  then show ?case by simp
next
  case (Cons a tapss)
  show ?case
  proof (cases "m < absintegral a")
    case True
    then show ?thesis using Cons.IH [of "absintegral a"] by auto
  next
    case False
    then show ?thesis using Cons.IH [of m] by auto
  qed
qed

lemma absintegral_nonneg: "0 \<le> absintegral taps"
  unfolding absintegral_def by (induction taps) simp_all

lemma absintegral_Cons: "absintegral (t # taps) = \<bar>t\<bar> + absintegral taps"
  by (simp add: absintegral_def)

lemma absintegral_zero_iff: "absintegral taps = 0 \<longleftrightarrow> (\<forall>t\<in>set taps. t = 0)"
proof (induction taps)
  case Nil
  then show ?case by (simp add: absintegral_def)
next
  case (Cons t taps)
  have "\<bar>t\<bar> + absintegral taps = 0 \<longleftrightarrow> \<bar>t\<bar> = 0 \<and> absintegral taps = 0"
    using absintegral_nonneg [of taps] by (intro add_nonneg_eq_0_iff) simp_all
  then show ?case using Cons.IH by (simp add: absintegral_Cons)
qed

lemma scale_taps_max_zero_iff:
  "scale_taps_max tapss 0 = 0 \<longleftrightarrow> (\<forall>taps\<in>set tapss. \<forall>t\<in>set taps. t = 0)"
proof
  assume z: "scale_taps_max tapss 0 = 0"
  show "\<forall>taps\<in>set tapss. \<forall>t\<in>set taps. t = 0"
  proof
    fix taps assume "taps \<in> set tapss"
    then have "absintegral taps \<le> 0" using scale_taps_max_upper [of taps tapss 0] z by simp
    then have "absintegral taps = 0" using absintegral_nonneg [of taps] by simp
    then show "\<forall>t\<in>set taps. t = 0" by (simp add: absintegral_zero_iff)
  qed
next
  assume a: "\<forall>taps\<in>set tapss. \<forall>t\<in>set taps. t = 0"
  have "scale_taps_max tapss 0 = 0 \<or> scale_taps_max tapss 0 \<in> absintegral ` set tapss"
    by (rule scale_taps_max_mem)
  then show "scale_taps_max tapss 0 = 0"
    using a by (auto simp: absintegral_zero_iff)
qed

lemma scale_taps_max_Max:
  assumes "\<exists>taps\<in>set tapss. \<exists>t\<in>set taps. t \<noteq> 0"
  shows "scale_taps_max tapss 0 = Max (absintegral ` set tapss)"
proof -
  have nz: "scale_taps_max tapss 0 \<noteq> 0"
    using assms by (auto simp: scale_taps_max_zero_iff)
  then have "scale_taps_max tapss 0 \<in> absintegral ` set tapss"
    using scale_taps_max_mem [of tapss 0] by simp
  moreover have "\<forall>a\<in>absintegral ` set tapss. a \<le> scale_taps_max tapss 0"
    by (auto simp: scale_taps_max_upper)
  ultimately show ?thesis
    by (intro Max_eqI [symmetric]) auto
qed

lemma scale_list_nonzero: "m \<noteq> 0 \<Longrightarrow> scale_list taps m = Inr (map (\<lambda>t. t / m) taps)"
  by (induction taps) (simp_all add: py_div_def)

lemma scale_lists_nonzero:
  "m \<noteq> 0 \<Longrightarrow> scale_lists tapss m = Inr (map (map (\<lambda>t. t / m)) tapss)"
  by (induction tapss) (simp_all add: scale_list_nonzero)

lemma scale_list_zero: "scale_list taps 0 = (if taps = [] then Inr [] else Inl ZeroDivisionError)"
  by (cases taps) (simp_all add: py_div_def)

lemma scale_lists_zero:
  "scale_lists tapss 0 = (if concat tapss = [] then Inr tapss else Inl ZeroDivisionError)"
  by (induction tapss) (auto simp: scale_list_zero)

lemma scale_taps_max_pos:
  assumes "\<exists>taps\<in>set tapss. \<exists>t\<in>set taps. t \<noteq> 0"
  shows "0 < scale_taps_max tapss 0"
proof -
  have "scale_taps_max tapss 0 \<noteq> 0"
    using assms by (auto simp: scale_taps_max_zero_iff)
  then show ?thesis using scale_taps_max_ge [of 0 tapss] by simp
qed

lemma scale_taps_nonzero:
  assumes "\<exists>taps\<in>set tapss. \<exists>t\<in>set taps. t \<noteq> 0"
  shows "scale_taps tapss =
           Inr (map (map (\<lambda>t. t / scale_taps_max tapss 0)) tapss, scale_taps_max tapss 0)"
  using scale_taps_max_pos [OF assms] by (simp add: scale_taps_def Let_def scale_lists_nonzero)

lemma absintegral_scaled:
  "0 < m \<Longrightarrow> sum_list (map abs (map (\<lambda>t. t / m) taps)) = absintegral taps / m"
  by (induction taps) (simp_all add: absintegral_def add_divide_distrib)

text \<open>
  Claim C2. When some tap of some list is not zero, \<open>scale_taps\<close> returns normally the pair
  \<open>(scaledtaps, M)\<close>, where \<open>M\<close> is the largest sum of absolute values over the tap lists
  and every scaled tap is the original tap divided by \<open>M\<close>. (Such an input is not empty.)
\<close>

theorem scale_taps_result:
  assumes "\<exists>taps\<in>set tapss. \<exists>t\<in>set taps. t \<noteq> 0"
  shows "scale_taps tapss =
           Inr (map (map (\<lambda>t. t / Max ((\<lambda>taps. sum_list (map abs taps)) ` set tapss))) tapss,
                Max ((\<lambda>taps. sum_list (map abs taps)) ` set tapss))"
proof -
  have "absintegral ` set tapss = (\<lambda>taps. sum_list (map abs taps)) ` set tapss"
    by (rule image_cong) (simp_all add: absintegral_def)
  then have "scale_taps_max tapss 0 = Max ((\<lambda>taps. sum_list (map abs taps)) ` set tapss)"
    using scale_taps_max_Max [OF assms] by simp
  then show ?thesis
    using scale_taps_nonzero [OF assms] by simp
qed

theorem scale_taps_result_witness:
  "scale_taps [[1, -2], [1/2, 0, 3]] = Inr ([[2/7, -4/7], [1/7, 0, 6/7]], 7/2)"
  using scale_taps_result [of "[[1, -2], [1/2, 0, 3]]"] by simp

text \<open>
  Claim C7. When some tap is not zero, every scaled tap list has a sum of absolute values
  of at most 1, and some scaled tap list has it equal to 1.
\<close>

theorem scale_taps_bound:
  assumes "\<exists>taps\<in>set tapss. \<exists>t\<in>set taps. t \<noteq> 0"
  shows "\<exists>scaledtaps M. scale_taps tapss = Inr (scaledtaps, M)
           \<and> (\<forall>taps\<in>set scaledtaps. sum_list (map abs taps) \<le> 1)
           \<and> (\<exists>taps\<in>set scaledtaps. sum_list (map abs taps) = 1)"
proof -
  let ?M = "scale_taps_max tapss 0"
  let ?scaled = "map (map (\<lambda>t. t / ?M)) tapss"
  have pos: "0 < ?M" by (rule scale_taps_max_pos [OF assms])
  have res: "scale_taps tapss = Inr (?scaled, ?M)" by (rule scale_taps_nonzero [OF assms])
  have le: "\<forall>taps\<in>set ?scaled. sum_list (map abs taps) \<le> 1"
  proof
    fix qs assume "qs \<in> set ?scaled"
    then obtain taps where t: "taps \<in> set tapss" and q: "qs = map (\<lambda>t. t / ?M) taps" by auto
    have "absintegral taps \<le> ?M" using t by (rule scale_taps_max_upper)
    moreover have "sum_list (map abs qs) = absintegral taps / ?M"
      unfolding q using pos by (rule absintegral_scaled)
    ultimately show "sum_list (map abs qs) \<le> 1"
      using pos by simp
  qed
  have "?M \<in> absintegral ` set tapss"
    using scale_taps_max_mem [of tapss 0] pos by auto
  then obtain taps where t: "taps \<in> set tapss" and m: "absintegral taps = ?M" by auto
  have "sum_list (map abs (map (\<lambda>t. t / ?M) taps)) = absintegral taps / ?M"
    using pos by (rule absintegral_scaled)
  then have "sum_list (map abs (map (\<lambda>t. t / ?M) taps)) = 1"
    using pos m by simp
  moreover have "map (\<lambda>t. t / ?M) taps \<in> set ?scaled" using t by simp
  ultimately have ex: "\<exists>taps\<in>set ?scaled. sum_list (map abs taps) = 1" by blast
  show ?thesis using res le ex by blast
qed

theorem scale_taps_bound_witness:
  "(\<exists>taps\<in>set [[1, -2], [1/2, 0, 3::rat]]. \<exists>t\<in>set taps. t \<noteq> 0)
   \<and> (\<exists>scaledtaps M. scale_taps [[1, -2], [1/2, 0, 3]] = Inr (scaledtaps, M)
          \<and> (\<forall>taps\<in>set scaledtaps. sum_list (map abs taps) \<le> 1)
          \<and> (\<exists>taps\<in>set scaledtaps. sum_list (map abs taps) = 1))"
proof -
  have h: "\<exists>taps\<in>set [[1, -2], [1/2, 0, 3::rat]]. \<exists>t\<in>set taps. t \<noteq> 0" by simp
  show ?thesis using h scale_taps_bound [OF h] by blast
qed

text \<open>
  Claim C10. When some tap is not zero, multiplying every scaled tap by the returned factor
  \<open>M\<close> gives back the input, and the scaled list of lists has the input's shape.
\<close>

theorem scale_taps_roundtrip:
  assumes "\<exists>taps\<in>set tapss. \<exists>t\<in>set taps. t \<noteq> 0"
  shows "\<exists>scaledtaps M. scale_taps tapss = Inr (scaledtaps, M)
           \<and> map (map (\<lambda>q. q * M)) scaledtaps = tapss
           \<and> map length scaledtaps = map length tapss"
proof -
  let ?M = "scale_taps_max tapss 0"
  let ?scaled = "map (map (\<lambda>t. t / ?M)) tapss"
  have pos: "0 < ?M" by (rule scale_taps_max_pos [OF assms])
  have res: "scale_taps tapss = Inr (?scaled, ?M)" by (rule scale_taps_nonzero [OF assms])
  have "(\<lambda>q. q * ?M) \<circ> (\<lambda>t. t / ?M) = id" using pos by (auto simp: fun_eq_iff)
  then have inv: "map (map (\<lambda>q. q * ?M)) ?scaled = tapss" by (simp add: map_idI)
  have shape: "map length ?scaled = map length tapss" by (simp add: comp_def)
  show ?thesis using res inv shape by blast
qed

theorem scale_taps_roundtrip_witness:
  "(\<exists>taps\<in>set [[1, -2], [1/2, 0, 3::rat]]. \<exists>t\<in>set taps. t \<noteq> 0)
   \<and> (\<exists>scaledtaps M. scale_taps [[1, -2], [1/2, 0, 3]] = Inr (scaledtaps, M)
          \<and> map (map (\<lambda>q. q * M)) scaledtaps = [[1, -2], [1/2, 0, 3]]
          \<and> map length scaledtaps = map length [[1, -2], [1/2, 0, 3::rat]])"
proof -
  have h: "\<exists>taps\<in>set [[1, -2], [1/2, 0, 3::rat]]. \<exists>t\<in>set taps. t \<noteq> 0" by simp
  show ?thesis using h scale_taps_roundtrip [OF h] by blast
qed

text \<open>
  Claim C9, as amended. \<open>scale_taps\<close> raises \<^verbatim>\<open>ZeroDivisionError\<close> exactly when its input
  holds at least one tap and every tap is zero. On every other input it returns normally;
  these are the inputs with a tap that is not zero and the inputs with no tap at all.
\<close>

theorem scale_taps_raises_iff:
  "(scale_taps tapss = Inl ZeroDivisionError
      \<longleftrightarrow> concat tapss \<noteq> [] \<and> (\<forall>taps\<in>set tapss. \<forall>t\<in>set taps. t = 0))
   \<and> (scale_taps tapss \<noteq> Inl ZeroDivisionError \<longrightarrow> (\<exists>r. scale_taps tapss = Inr r))"
proof (cases "\<forall>taps\<in>set tapss. \<forall>t\<in>set taps. t = 0")
  case True
  then have "scale_taps_max tapss 0 = 0" by (simp add: scale_taps_max_zero_iff)
  then show ?thesis using True by (simp add: scale_taps_def scale_lists_zero)
next
  case False
  then have "\<exists>taps\<in>set tapss. \<exists>t\<in>set taps. t \<noteq> 0" by blast
  then show ?thesis using False by (simp add: scale_taps_nonzero)
qed

theorem scale_taps_raises_iff_witness:
  "scale_taps [[0, 0], [0]] = Inl ZeroDivisionError
   \<and> (\<exists>r. scale_taps [[0, 1], []] = Inr r)"
  using scale_taps_raises_iff [of "[[0, 0], [0]]"] scale_taps_raises_iff [of "[[0, 1], []]"]
  by simp

text \<open>
  Claim C9 as stated fails on inputs without taps: no division is evaluated for the empty
  list of tap lists, nor for a list of empty tap lists, and the function returns with the
  factor 0.
\<close>

theorem scale_taps_no_taps_returns:
  "scale_taps [] = Inr ([], 0) \<and> scale_taps [[], []] = Inr ([[], []], 0)"
  by (simp add: scale_taps_def absintegral_def)

section \<open>Properties of zero pruning\<close>

lemma prune_zeros_loop_append:
  "prune_zeros_loop (ps @ qs) st = prune_zeros_loop qs (prune_zeros_loop ps st)"
proof (induction ps arbitrary: st)
  case Nil
  then show ?case by simp
next
  case (Cons p ps)
  then show ?case by (cases p; cases st) simp
qed

lemma prune_zeros_loop_zeros:
  "\<forall>p\<in>set ps. snd p = 0 \<Longrightarrow> prune_zeros_loop ps st = st"
proof (induction ps)
  case Nil
  then show ?case by simp
next
  case (Cons p ps)
  then show ?case by (cases p; cases st) simp
qed

lemma prune_zeros_loop_start_kept:
  "fst (prune_zeros_loop ps (Some s, e)) = Some s"
proof (induction ps arbitrary: e)
  case Nil
  then show ?case by simp
next
  case (Cons p ps)
  then show ?case by (cases p) simp
qed

lemma prune_zeros_loop_first:
  "ps \<noteq> [] \<Longrightarrow> snd (hd ps) \<noteq> 0 \<Longrightarrow>
     fst (prune_zeros_loop ps (None, e)) = Some (fst (hd ps))"
  by (cases ps) (auto simp: prune_zeros_loop_start_kept)

lemma prune_zeros_loop_last:
  "ps \<noteq> [] \<Longrightarrow> snd (last ps) \<noteq> 0 \<Longrightarrow>
     snd (prune_zeros_loop ps st) = Some (fst (last ps))"
proof (induction ps arbitrary: st)
  case Nil
  then show ?case by simp
next
  case (Cons p ps)
  show ?case
  proof (cases "ps = []")
    case True
    then show ?thesis using Cons.prems by (cases p; cases st) simp
  next
    case False
    then show ?thesis using Cons by (cases p; cases st) simp
  qed
qed

lemma enumerate_zeros: "\<forall>x\<in>set zs. x = 0 \<Longrightarrow> \<forall>p\<in>set (enumerate n zs). snd p = 0"
  by (auto simp: enumerate_eq_zip dest: set_zip_rightD)

lemma hd_enumerate: "xs \<noteq> [] \<Longrightarrow> hd (enumerate n xs) = (n, hd xs)"
  by (cases xs) simp_all

lemma last_enumerate: "xs \<noteq> [] \<Longrightarrow> last (enumerate n xs) = (n + length xs - 1, last xs)"
proof (induction xs arbitrary: n)
  case Nil
  then show ?case by simp
next
  case (Cons x xs)
  show ?case
  proof (cases "xs = []")
    case True
    then show ?thesis by simp
  next
    case False
    then have "enumerate (Suc n) xs \<noteq> []" by (cases xs) simp_all
    with Cons.IH [OF False, of "Suc n"] show ?thesis using False by simp
  qed
qed

lemma prune_zeros_loop_mid:
  assumes "mid \<noteq> []" and "hd mid \<noteq> 0" and "last mid \<noteq> 0"
  shows "prune_zeros_loop (enumerate n mid) (None, None) = (Some n, Some (n + length mid - 1))"
proof -
  let ?ps = "enumerate n mid"
  have ne: "?ps \<noteq> []" using assms(1) by (cases mid) simp_all
  have "fst (prune_zeros_loop ?ps (None, None)) = Some (fst (hd ?ps))"
    using ne assms by (intro prune_zeros_loop_first) (simp_all add: hd_enumerate)
  moreover have "snd (prune_zeros_loop ?ps (None, None)) = Some (fst (last ?ps))"
    using ne assms by (intro prune_zeros_loop_last) (simp_all add: last_enumerate)
  ultimately show ?thesis using assms(1) by (simp add: prod_eq_iff hd_enumerate last_enumerate)
qed

lemma prune_zeros_decomposed:
  assumes "\<forall>x\<in>set pre. x = 0" and "\<forall>x\<in>set suf. x = 0"
    and "mid \<noteq> [] \<longrightarrow> hd mid \<noteq> 0 \<and> last mid \<noteq> 0"
  shows "prune_zeros (pre @ mid @ suf) = Inr mid"
proof (cases "mid = []")
  case True
  have "\<forall>x\<in>set (pre @ suf). x = 0" using assms by auto
  then have "prune_zeros_loop (enumerate 0 (pre @ suf)) (None, None) = (None, None)"
    by (intro prune_zeros_loop_zeros enumerate_zeros)
  then show ?thesis using True by (simp add: prune_zeros_def)
next
  case False
  let ?a = "length pre"
  have e: "enumerate 0 (pre @ mid @ suf) =
             enumerate 0 pre @ enumerate ?a mid @ enumerate (?a + length mid) suf"
    by (simp add: enumerate_append_eq)
  have 1: "prune_zeros_loop (enumerate 0 pre) (None, None) = (None, None)"
    using assms(1) by (intro prune_zeros_loop_zeros enumerate_zeros)
  have 2: "prune_zeros_loop (enumerate ?a mid) (None, None) = (Some ?a, Some (?a + length mid - 1))"
    using False assms(3) by (intro prune_zeros_loop_mid) simp_all
  have 3: "prune_zeros_loop (enumerate (?a + length mid) suf) st = st" for st
    using assms(2) by (intro prune_zeros_loop_zeros enumerate_zeros)
  have "prune_zeros_loop (enumerate 0 (pre @ mid @ suf)) (None, None) =
          (Some ?a, Some (?a + length mid - 1))"
    by (simp add: e prune_zeros_loop_append 1 2 3)
  moreover have "?a + length mid - 1 + 1 = ?a + length mid"
    using False by (cases mid) simp_all
  ultimately show ?thesis by (simp add: prune_zeros_def py_slice_def)
qed

lemma trim_decomposition:
  fixes xs :: "'a::zero list"
  shows "\<exists>pre mid suf. xs = pre @ mid @ suf \<and> (\<forall>x\<in>set pre. x = 0) \<and> (\<forall>x\<in>set suf. x = 0)
           \<and> (mid \<noteq> [] \<longrightarrow> hd mid \<noteq> 0 \<and> last mid \<noteq> 0)"
proof (cases "\<exists>x\<in>set xs. x \<noteq> 0")
  case False
  then have "xs = xs @ [] @ [] \<and> (\<forall>x\<in>set xs. x = 0)" by simp
  then show ?thesis by (metis empty_iff list.set(1))
next
  case True
  then obtain pre a rest where 1: "xs = pre @ a # rest" "a \<noteq> 0" "\<forall>y\<in>set pre. \<not> y \<noteq> 0"
    using split_list_first_prop [of xs "\<lambda>x. x \<noteq> 0"] by blast
  have "\<exists>x\<in>set (a # rest). x \<noteq> 0" using 1(2) by simp
  then obtain ys b suf where 2: "a # rest = ys @ b # suf" "b \<noteq> 0" "\<forall>z\<in>set suf. \<not> z \<noteq> 0"
    using split_list_last_prop [of "a # rest" "\<lambda>x. x \<noteq> 0"] by blast
  have "hd (ys @ [b]) = a" using 2(1) by (cases ys) simp_all
  then have "xs = pre @ (ys @ [b]) @ suf \<and> (\<forall>x\<in>set pre. x = 0) \<and> (\<forall>x\<in>set suf. x = 0)
       \<and> (ys @ [b] \<noteq> [] \<longrightarrow> hd (ys @ [b]) \<noteq> 0 \<and> last (ys @ [b]) \<noteq> 0)"
    using 1 2 by simp
  then show ?thesis by blast
qed

text \<open>
  Claim C8. \<open>prune_zeros xs\<close> returns normally a contiguous part \<open>mid\<close> of
  \<open>xs = pre @ mid @ suf\<close>: every element of the dropped ends \<open>pre\<close> and \<open>suf\<close> is zero,
  \<open>mid\<close> is unchanged, and when \<open>mid\<close> is not empty it starts and ends with an element
  that is not zero, so it runs from the first to the last such element of \<open>xs\<close>. The
  result is empty exactly when \<open>xs\<close> is empty or holds zeros only.
\<close>

theorem prune_zeros_spec:
  fixes xs :: "'a::zero list"
  shows "\<exists>pre mid suf. xs = pre @ mid @ suf \<and> prune_zeros xs = Inr mid
           \<and> (\<forall>x\<in>set pre. x = 0) \<and> (\<forall>x\<in>set suf. x = 0)
           \<and> (mid \<noteq> [] \<longrightarrow> hd mid \<noteq> 0 \<and> last mid \<noteq> 0)
           \<and> (mid = [] \<longleftrightarrow> (\<forall>x\<in>set xs. x = 0))"
proof -
  obtain pre mid suf where d: "xs = pre @ mid @ suf" "\<forall>x\<in>set pre. x = 0" "\<forall>x\<in>set suf. x = 0"
      "mid \<noteq> [] \<longrightarrow> hd mid \<noteq> 0 \<and> last mid \<noteq> 0"
    using trim_decomposition [of xs] by blast
  have r: "prune_zeros xs = Inr mid"
    unfolding d(1) using d(2-4) by (rule prune_zeros_decomposed)
  have "mid = [] \<longleftrightarrow> (\<forall>x\<in>set xs. x = 0)"
  proof
    assume "mid = []" then show "\<forall>x\<in>set xs. x = 0" using d by auto
  next
    assume z: "\<forall>x\<in>set xs. x = 0"
    show "mid = []"
    proof (rule ccontr)
      assume m: "mid \<noteq> []"
      then have "hd mid \<in> set xs" using d(1) by simp
      then show False using z d(4) m by blast
    qed
  qed
  then show ?thesis using d r by blast
qed

theorem prune_zeros_spec_witness:
  "(\<exists>pre mid suf. [0, 0, 1, 0, 2, 0::int] = pre @ mid @ suf
        \<and> prune_zeros [0, 0, 1, 0, 2, 0::int] = Inr mid
        \<and> (\<forall>x\<in>set pre. x = 0) \<and> (\<forall>x\<in>set suf. x = 0)
        \<and> (mid \<noteq> [] \<longrightarrow> hd mid \<noteq> 0 \<and> last mid \<noteq> 0)
        \<and> (mid = [] \<longleftrightarrow> (\<forall>x\<in>set [0, 0, 1, 0, 2, 0::int]. x = 0)))
   \<and> prune_zeros [0, 0, 1, 0, 2, 0::int] = Inr [1, 0, 2]
   \<and> prune_zeros [0, 0::int] = Inr []"
proof -
  have "prune_zeros [0, 0, 1, 0, 2, 0::int] = Inr [1, 0, 2]"
    by (simp add: prune_zeros_def py_slice_def)
  moreover have "prune_zeros [0, 0::int] = Inr []"
    by (simp add: prune_zeros_def)
  ultimately show ?thesis
    using prune_zeros_spec [of "[0, 0, 1, 0, 2, 0::int]"] by blast
qed

section \<open>Properties of the test assertions\<close>

lemma round_scaled_zero_iff:
  fixes d :: real
  assumes "0 \<le> d"
  shows "round (d * 10 ^ 3) = 0 \<longleftrightarrow> d < 1 / 2000"
proof -
  have "round (d * 10 ^ 3) = 0 \<longleftrightarrow> 0 \<le> d * 1000 + 1 / 2 \<and> d * 1000 + 1 / 2 < 1"
    by (simp add: round_def floor_eq_iff)
  also have "\<dots> \<longleftrightarrow> d < 1 / 2000" using assms by auto
  finally show ?thesis .
qed

lemma assertAlmostEqual_3:
  "assertAlmostEqual first second 3 =
     (if norm (second - first) < 1 / 2000 then Inr () else Inl AssertionError)"
proof (cases "first = second")
  case True
  then show ?thesis by (simp add: assertAlmostEqual_def)
next
  case False
  have "round (norm (second - first) * 10 ^ 3) = 0 \<longleftrightarrow> norm (second - first) < 1 / 2000"
    by (rule round_scaled_zero_iff) simp
  then show ?thesis using False by (simp add: assertAlmostEqual_def)
qed

lemma fft_compare_loop_eq:
  "fft_compare_loop ps =
     (if \<forall>(r, e)\<in>set ps. norm (r - e) < 1 / 2000 then Inr () else Inl AssertionError)"
proof (induction ps)
  case Nil
  then show ?case by simp
next
  case (Cons p ps)
  then show ?case by (cases p) (simp add: assertAlmostEqual_3)
qed

lemma fft_compare_eq:
  "fft_compare out_samples expected =
     (if length out_samples = length expected
         \<and> (\<forall>(r, e)\<in>set (zip out_samples expected). norm (r - e) < 1 / 2000)
      then Inr () else Inl AssertionError)"
  by (simp add: fft_compare_def assertEqual_def fft_compare_loop_eq)

lemma compare_stream_eq:
  "compare_stream ps =
     (if \<forall>(r, e)\<in>set ps. norm (e - r) < 1 / 2000 then Inr () else Inl AssertionError)"
proof (induction ps)
  case Nil
  then show ?case by simp
next
  case (Cons p ps)
  then show ?case by (cases p) (simp add: assertAlmostEqual_3)
qed

lemma compare_streams_eq:
  "compare_streams pss =
     (if \<forall>(rs, es)\<in>set pss. \<forall>(r, e)\<in>set (zip rs es). norm (e - r) < 1 / 2000
      then Inr () else Inl AssertionError)"
proof (induction pss)
  case Nil
  then show ?case by simp
next
  case (Cons p pss)
  then show ?case by (cases p) (simp add: compare_stream_eq)
qed

text \<open>
  Claim C6. Every comparison of a captured sample with its reference is
  \<^verbatim>\<open>assertAlmostEqual\<close> with \<open>places = 3\<close>, in the FFT tests and in the filterbank tests:
  the comparison passes exactly when the modulus of the difference rounds to zero at 3
  decimals, that is when it is below 0.0005, and never demands equal samples. The FFT
  tests also assert equal lengths; the filterbank tests compare the zipped streams.
\<close>

theorem sample_comparisons_tolerance:
  "fft_compare out_samples expected =
     (if length out_samples = length expected
         \<and> (\<forall>(r, e)\<in>set (zip out_samples expected). norm (r - e) < 1 / 2000)
      then Inr () else Inl AssertionError)
   \<and> compare_samples received expecteds =
     (if \<forall>(rs, es)\<in>set (zip received expecteds). \<forall>(r, e)\<in>set (zip rs es). norm (e - r) < 1 / 2000
      then Inr () else Inl AssertionError)"
  by (simp only: fft_compare_eq compare_samples_def compare_streams_eq simp_thms)

theorem sample_comparisons_tolerance_witness:
  "fft_compare [1 / 10000, 3] [0, 3] = Inr ()
   \<and> fft_compare [1 / 1000, 3] [0, 3] = Inl AssertionError
   \<and> compare_samples [[1 / 10000], [3]] [[0], [3]] = Inr ()
   \<and> compare_samples [[1 / 1000], [3]] [[0], [3]] = Inl AssertionError"
  using sample_comparisons_tolerance [of "[1 / 10000, 3]" "[0, 3]" "[[1 / 10000], [3]]" "[[0], [3]]"]
    sample_comparisons_tolerance [of "[1 / 1000, 3]" "[0, 3]" "[[1 / 1000], [3]]" "[[0], [3]]"]
  by (simp add: norm_divide)

lemma compare_ms_loop_eq:
  "length rs = length es \<Longrightarrow>
     compare_ms_loop (zip rs es) = (if rs = es then Inr () else Inl AssertionError)"
proof (induction rs es rule: list_induct2)
  case Nil
  then show ?case by simp
next
  case (Cons r rs e es)
  then show ?case by (auto simp: assertEqual_def)
qed

text \<open>
  Claim C4. The meta data assertions pass exactly when the captured sequence \<open>out_ms\<close>
  equals the input sequence \<open>ms\<close>: the same length and every element equal as an integer,
  with no tolerance. Otherwise an assertion fails.
\<close>

theorem compare_ms_exact:
  "compare_ms out_ms ms = (if out_ms = ms then Inr () else Inl AssertionError)"
proof (cases "length out_ms = length ms")
  case True
  then show ?thesis by (simp add: compare_ms_def assertEqual_def compare_ms_loop_eq)
next
  case False
  then have "out_ms \<noteq> ms" by auto
  then show ?thesis using False by (simp add: compare_ms_def assertEqual_def)
qed

theorem compare_ms_exact_witness:
  "compare_ms [1, 0, 1] [1, 0, 1] = Inr ()
   \<and> compare_ms [1, 0] [1, 0, 1] = Inl AssertionError
   \<and> compare_ms [1, 1, 1] [1, 0, 1] = Inl AssertionError"
  using compare_ms_exact [of "[1, 0, 1]" "[1, 0, 1]"] compare_ms_exact [of "[1, 0]" "[1, 0, 1]"]
    compare_ms_exact [of "[1, 1, 1]" "[1, 0, 1]"]
  by simp

lemma compare_ff_loop_eq:
  "length rs = length es \<Longrightarrow>
     compare_ff_loop (zip rs es) = (if rs = es then Inr () else Inl AssertionError)"
proof (induction rs es rule: list_induct2)
  case Nil
  then show ?case by simp
next
  case (Cons r rs e es)
  then show ?case by (auto simp: assertEqual_def)
qed

lemma compare_ff_eq:
  "compare_ff out_ff ffs = (if out_ff = ffs then Inr () else Inl AssertionError)"
proof (cases "length out_ff = length ffs")
  case True
  then show ?thesis by (simp add: compare_ff_def assertEqual_def compare_ff_loop_eq)
next
  case False
  then have "out_ff \<noteq> ffs" by auto
  then show ?thesis using False by (simp add: compare_ff_def assertEqual_def)
qed

lemma expected_ffs_nat:
  "expected_ffs (int n_filters) (int n_data) =
     concat (replicate n_data (1 # replicate (n_filters - 1) 0))"
proof -
  have "py_repeat [0::int] (int n_filters - 1) = replicate (n_filters - 1) 0"
    by (induction n_filters) (simp_all add: py_repeat_def nat_diff_distrib')
  then show ?thesis by (simp add: expected_ffs_def py_repeat_def)
qed

lemma nth_concat_replicate:
  "i < n * length xs \<Longrightarrow> concat (replicate n xs) ! i = xs ! (i mod length xs)"
proof (induction n arbitrary: i)
  case 0
  then show ?case by simp
next
  case (Suc n)
  show ?case
  proof (cases "i < length xs")
    case True
    then show ?thesis by (simp add: nth_append)
  next
    case False
    then have "i - length xs < n * length xs" using Suc.prems by simp
    then have "concat (replicate n xs) ! (i - length xs) = xs ! ((i - length xs) mod length xs)"
      by (rule Suc.IH)
    then show ?thesis using False by (simp add: nth_append le_mod_geq)
  qed
qed

text \<open>
  Claim C5. The expected first-filter sequence for \<open>n_filters\<close> filters and \<open>n_data\<close>
  frames is the block of a one followed by \<open>n_filters - 1\<close> zeros, repeated \<open>n_data\<close>
  times; it has \<open>n_filters * n_data\<close> elements, a one at every multiple of \<open>n_filters\<close>
  and zeros elsewhere. The assertions pass exactly when the captured sequence \<open>out_ff\<close>
  equals it, in length and element by element.
\<close>

theorem first_filter_pattern:
  "expected_ffs (int n_filters) (int n_data) =
     concat (replicate n_data (1 # replicate (n_filters - 1) 0))
   \<and> (0 < n_filters \<longrightarrow>
        length (expected_ffs (int n_filters) (int n_data)) = n_filters * n_data
        \<and> (\<forall>i<n_filters * n_data.
              expected_ffs (int n_filters) (int n_data) ! i = (if i mod n_filters = 0 then 1 else 0)))
   \<and> compare_ff out_ff (expected_ffs (int n_filters) (int n_data)) =
        (if out_ff = expected_ffs (int n_filters) (int n_data) then Inr () else Inl AssertionError)"
proof -
  let ?block = "1 # replicate (n_filters - 1) (0::int)"
  have e: "expected_ffs (int n_filters) (int n_data) = concat (replicate n_data ?block)"
    by (rule expected_ffs_nat)
  have "length (concat (replicate n_data ?block)) = n_filters * n_data
        \<and> (\<forall>i<n_filters * n_data.
              concat (replicate n_data ?block) ! i = (if i mod n_filters = 0 then 1 else 0))"
    if pos: "0 < n_filters"
  proof -
    have l: "length ?block = n_filters" using pos by simp
    have "length (concat (replicate n_data ?block)) = n_data * length ?block"
      by (induction n_data) simp_all
    then have 1: "length (concat (replicate n_data ?block)) = n_filters * n_data"
      by (simp only: l mult.commute)
    have 2: "concat (replicate n_data ?block) ! i = (if i mod n_filters = 0 then 1 else 0)"
      if "i < n_filters * n_data" for i
    proof -
      have "i < n_data * length ?block" using that by (simp only: l mult.commute)
      then have "concat (replicate n_data ?block) ! i = ?block ! (i mod length ?block)"
        by (rule nth_concat_replicate)
      also have "\<dots> = ?block ! (i mod n_filters)" by (simp only: l)
      also have "\<dots> = (if i mod n_filters = 0 then 1 else 0)"
      proof (cases "i mod n_filters = 0")
        case True
        then show ?thesis by simp
      next
        case False
        moreover have "i mod n_filters < n_filters" using pos by simp
        ultimately show ?thesis by (simp add: nth_Cons')
      qed
      finally show ?thesis .
    qed
    show ?thesis using 1 2 by blast
  qed
  then show ?thesis
    using e compare_ff_eq [of out_ff "expected_ffs (int n_filters) (int n_data)"] by presburger
qed

theorem first_filter_pattern_witness:
  "expected_ffs 4 2 = [1, 0, 0, 0, 1, 0, 0, 0]
   \<and> length (expected_ffs 4 2) = 4 * 2
   \<and> compare_ff [1, 0, 0, 0, 1, 0, 0, 0] (expected_ffs 4 2) = Inr ()
   \<and> compare_ff [1, 0, 0, 0, 0, 1, 0, 0] (expected_ffs 4 2) = Inl AssertionError"
proof -
  have c: "concat (replicate 2 (1 # replicate (4 - 1) (0::int))) = [1, 0, 0, 0, 1, 0, 0, 0]"
    by (simp add: numeral_2_eq_2 numeral_3_eq_3)
  have e: "expected_ffs 4 2 = [1, 0, 0, 0, 1, 0, 0, 0]"
    using first_filter_pattern [of 4 2 "[]", THEN conjunct1] c by simp
  have l: "length (expected_ffs 4 2) = 4 * 2"
    using first_filter_pattern [of 4 2 "[]", THEN conjunct2, THEN conjunct1] by simp
  have p: "compare_ff [1, 0, 0, 0, 1, 0, 0, 0] (expected_ffs 4 2) = Inr ()"
    using first_filter_pattern [of 4 2 "[1, 0, 0, 0, 1, 0, 0, 0]", THEN conjunct2, THEN conjunct2] e
    by simp
  have f: "compare_ff [1, 0, 0, 0, 0, 1, 0, 0] (expected_ffs 4 2) = Inl AssertionError"
    using first_filter_pattern [of 4 2 "[1, 0, 0, 0, 0, 1, 0, 0]", THEN conjunct2, THEN conjunct2] e
    by simp
  show ?thesis using e l p f by simp
qed

lemma test_one_benches_eq:
  "test_one_benches expected tbs =
     (if \<forall>out_samples\<in>set tbs. length out_samples = length expected
            \<and> (\<forall>(r, e)\<in>set (zip out_samples expected). norm (r - e) < 1 / 2000)
      then Inr () else Inl AssertionError)"
proof (induction tbs)
  case Nil
  then show ?case by simp
next
  case (Cons out_samples tbs)
  then show ?case by (simp add: fft_compare_eq)
qed

lemma dft_length: "length (dft xs) = length xs"
  by (simp add: dft_def)

lemma dft_first: "xs \<noteq> [] \<Longrightarrow> dft xs ! 0 = (\<Sum>n<length xs. xs ! n)"
  by (simp add: dft_def)

lemma sum_replicate: "(\<Sum>n<m. replicate m c ! n) = of_nat m * (c::complex)"
proof -
  have "(\<Sum>n<m. replicate m c ! n) = (\<Sum>n<m. c)" by (rule sum.cong) simp_all
  then show ?thesis by simp
qed

lemma zip_all_nth:
  assumes "length xs = length ys"
  shows "(\<forall>(r, e)\<in>set (zip xs ys). P r e) \<longleftrightarrow> (\<forall>i<length ys. P (xs ! i) (ys ! i))"
proof
  assume a: "\<forall>(r, e)\<in>set (zip xs ys). P r e"
  show "\<forall>i<length ys. P (xs ! i) (ys ! i)"
  proof (intro allI impI)
    fix i assume "i < length ys"
    then have "(xs ! i, ys ! i) \<in> set (zip xs ys)"
      using assms unfolding set_zip by auto
    then show "P (xs ! i) (ys ! i)" using a by blast
  qed
next
  assume "\<forall>i<length ys. P (xs ! i) (ys ! i)"
  then show "\<forall>(r, e)\<in>set (zip xs ys). P r e"
    using assms by (auto simp: set_zip)
qed

text \<open>
  Claim C3, as amended. In both FFT tests the expected sequence is the sequence of input
  samples itself; no transform of it is computed. The test passes exactly when every test
  bench returns as many samples as were sent, each within 0.0005 of the input sample at
  the same position.
\<close>

theorem test_one_identity_reference:
  "test_one_expected in_samples = in_samples
   \<and> test_one in_samples tbs =
     (if \<forall>out_samples\<in>set tbs. length out_samples = length in_samples
            \<and> (\<forall>i<length in_samples. norm (out_samples ! i - in_samples ! i) < 1 / 2000)
      then Inr () else Inl AssertionError)"
proof -
  have "(length out_samples = length in_samples
            \<and> (\<forall>(r, e)\<in>set (zip out_samples in_samples). norm (r - e) < 1 / 2000))
      \<longleftrightarrow> (length out_samples = length in_samples
            \<and> (\<forall>i<length in_samples. norm (out_samples ! i - in_samples ! i) < 1 / 2000))"
    for out_samples
    using zip_all_nth [of out_samples in_samples "\<lambda>r e. norm (r - e) < 1 / 2000"] by blast
  then show ?thesis
    by (simp add: test_one_def test_one_expected_def test_one_benches_eq)
qed

theorem test_one_identity_reference_witness:
  "test_one [1 / 2, - 1 / 4] [[1 / 2, - 1 / 4], [1 / 2 + 1 / 10000, - 1 / 4]] = Inr ()
   \<and> test_one [1 / 2, - 1 / 4] [[1 / 2, - 1 / 4], [1 / 4, - 1 / 4]] = Inl AssertionError"
  using test_one_identity_reference [of "[1 / 2, - 1 / 4]" "[[1 / 2, - 1 / 4], [1 / 2 + 1 / 10000, - 1 / 4]]"]
    test_one_identity_reference [of "[1 / 2, - 1 / 4]" "[[1 / 2, - 1 / 4], [1 / 4, - 1 / 4]]"]
  by (simp add: All_less_Suc norm_divide)

text \<open>
  Claim C3 as stated fails. For sixteen samples \<open>0.5\<close>, the number \<^verbatim>\<open>TestStage\<close> sends,
  the expected sequence is not their Fourier transform, whose first element is 8. Three
  benches that echo the input pass the test, and three that return the transform fail it.
\<close>

theorem test_one_expected_not_fft:
  "test_one_expected (replicate 16 (1 / 2)) \<noteq> dft (replicate 16 (1 / 2))
   \<and> test_one (replicate 16 (1 / 2))
         [replicate 16 (1 / 2), replicate 16 (1 / 2), replicate 16 (1 / 2)] = Inr ()
   \<and> test_one (replicate 16 (1 / 2))
         [dft (replicate 16 (1 / 2)), dft (replicate 16 (1 / 2)), dft (replicate 16 (1 / 2))]
       = Inl AssertionError"
proof -
  let ?xs = "replicate 16 (1 / 2) :: complex list"
  have ne: "?xs \<noteq> []" by simp
  have f: "dft ?xs ! 0 = 8"
    using dft_first [OF ne] by (simp add: sum_replicate)
  have x: "?xs ! 0 = 1 / 2" by simp
  have 1: "test_one_expected ?xs \<noteq> dft ?xs"
  proof
    assume "test_one_expected ?xs = dft ?xs"
    then have "?xs ! 0 = dft ?xs ! 0" by (simp add: test_one_expected_def)
    then show False using f x by simp
  qed
  have 2: "test_one ?xs [?xs, ?xs, ?xs] = Inr ()"
    by (simp add: test_one_def test_one_expected_def test_one_benches_eq)
  have "\<not> norm (dft ?xs ! 0 - ?xs ! 0) < 1 / 2000"
    unfolding f x by (simp add: norm_divide)
  moreover have "(dft ?xs ! 0, ?xs ! 0) \<in> set (zip (dft ?xs) ?xs)"
    unfolding set_zip by (rule CollectI, rule exI [of _ 0]) (simp add: dft_length)
  ultimately have "\<not> (\<forall>(r, e)\<in>set (zip (dft ?xs) ?xs). norm (r - e) < 1 / 2000)"
    by blast
  then have 3: "test_one ?xs [dft ?xs, dft ?xs, dft ?xs] = Inl AssertionError"
    by (simp add: test_one_def test_one_expected_def test_one_benches_eq)
  show ?thesis using 1 2 3 by blast
qed

end
